theory Spec2Isabelle
  imports Complex_Main "HOL-Library.Word"
begin

unbundle bit_operations_syntax

section \<open>Firmware upload (ezusb.c)\<close>

subsection \<open>Data\<close>

text \<open>
  The firmware image is the content of the file, a sequence of bytes
  (\<^verbatim>\<open>unsigned char *firmware\<close> with \<^verbatim>\<open>length = filesize\<close>).
  C's \<^verbatim>\<open>unsigned\<close> is a 32-bit word. Values of type \<^verbatim>\<open>size_t\<close> are natural
  numbers here: \<open>ezusb_install_firmware\<close> refuses files above \<open>max_size\<close>, so
  \<^verbatim>\<open>length\<close>, \<^verbatim>\<open>offset\<close>, \<^verbatim>\<open>suboffset\<close> and \<^verbatim>\<open>chunksize\<close> stay below \<open>2 ^ 20\<close>,
  \<^verbatim>\<open>sublength\<close> and \<^verbatim>\<open>addr\<close> below \<open>2 ^ 32\<close>, and the only sum that can pass
  \<open>2 ^ 32\<close>, \<^verbatim>\<open>addr + suboffset\<close>, is cut to 16 bits by the parameter types of
  \<^verbatim>\<open>libusb_control_transfer\<close> (see \<open>wIndex_size_t_width\<close>).
\<close>

type_synonym byte = "8 word"

text \<open>One call of \<^verbatim>\<open>libusb_control_transfer\<close>: the setup packet, the data stage, the timeout.\<close>

record control_transfer =
  bmRequestType :: "8 word"
  bRequest :: "8 word"
  wValue :: "16 word"
  wIndex :: "16 word"
  data :: "byte list"
  timeout :: "32 word"

text \<open>
  The device side of the control pipe: the return value of the \<open>n\<close>-th call of
  \<^verbatim>\<open>libusb_control_transfer\<close> (counted from 0). Negative values are libusb errors.
\<close>

type_synonym device = "nat \<Rightarrow> int"

text \<open>The failures of \<^verbatim>\<open>ezusb_install_firmware\<close>, named after the message it prints;
  the function returns \<open>-1\<close> on each of them.\<close>

datatype install_error =
    Size_exceeds_limit
  | Invalid_signature
  | Unable_to_send int
  | Firmware_truncated

text \<open>Constants of libusb.h.\<close>

definition LIBUSB_REQUEST_TYPE_VENDOR :: "8 word" where
  "LIBUSB_REQUEST_TYPE_VENDOR = push_bit 5 0x02"

definition LIBUSB_ENDPOINT_OUT :: "8 word" where
  "LIBUSB_ENDPOINT_OUT = 0x00"

subsection \<open>Operations\<close>

definition RL32 :: "byte list \<Rightarrow> nat \<Rightarrow> 32 word" where
  "RL32 x off =
     (push_bit 24 (ucast (x ! (off + 3)))) OR
     (push_bit 16 (ucast (x ! (off + 2)))) OR
     (push_bit 8 (ucast (x ! (off + 1)))) OR
     ucast (x ! off)"

definition MIN_size_t :: "nat \<Rightarrow> nat \<Rightarrow> nat" where
  "MIN_size_t a b = (if a < b then a else b)"

definition FW_CHUNKSIZE :: nat where
  "FW_CHUNKSIZE = 4 * 1024"

definition max_size :: nat where
  "max_size = 0x86000"

text \<open>The arguments of the control transfer of one chunk (ezusb.c, lines 173 to 176).\<close>

definition chunk_transfer :: "byte list \<Rightarrow> nat \<Rightarrow> nat \<Rightarrow> nat \<Rightarrow> nat \<Rightarrow> control_transfer" where
  "chunk_transfer firmware offset addr suboffset chunksize =
     \<lparr> bmRequestType = LIBUSB_REQUEST_TYPE_VENDOR OR LIBUSB_ENDPOINT_OUT,
       bRequest = 0xa0,
       wValue = of_nat ((addr + suboffset) AND 0xffff),
       wIndex = of_nat (drop_bit 16 (addr + suboffset)),
       data = take chunksize (drop (offset + suboffset) firmware),
       timeout = 100 \<rparr>"

text \<open>
  The inner \<^verbatim>\<open>do ... while (suboffset < sublength)\<close> loop. The result is the error of
  the failed transfer, if any, with the transfers issued so far (the new ones appended
  to \<open>issued\<close>).
\<close>

function chunk_loop ::
  "device \<Rightarrow> byte list \<Rightarrow> nat \<Rightarrow> nat \<Rightarrow> nat \<Rightarrow> nat \<Rightarrow> control_transfer list
    \<Rightarrow> (install_error + unit) \<times> control_transfer list" where
  "chunk_loop dev firmware offset addr sublength suboffset issued =
     (let chunksize = MIN_size_t (sublength - suboffset) FW_CHUNKSIZE;
          ret = dev (length issued);
          issued' = issued @ [chunk_transfer firmware offset addr suboffset chunksize]
      in if ret < 0 then (Inl (Unable_to_send ret), issued')
         else let suboffset' = suboffset + chunksize
              in if suboffset' < sublength
                 then chunk_loop dev firmware offset addr sublength suboffset' issued'
                 else (Inr (), issued'))"
  by pat_completeness auto
termination
  by (relation "measure (\<lambda>(dev, firmware, offset, addr, sublength, suboffset, issued).
        sublength - suboffset)")
     (auto simp: MIN_size_t_def FW_CHUNKSIZE_def split: if_splits)

declare chunk_loop.simps [simp del]

text \<open>
  The outer \<^verbatim>\<open>while (offset < length)\<close> loop. \<open>Inr offset\<close> is the value of
  \<^verbatim>\<open>offset\<close> when the loop is left by its condition or by a \<^verbatim>\<open>break\<close>.
\<close>

function segment_loop ::
  "device \<Rightarrow> byte list \<Rightarrow> nat \<Rightarrow> control_transfer list
    \<Rightarrow> (install_error + nat) \<times> control_transfer list" where
  "segment_loop dev firmware offset issued =
     (if offset < length firmware then
        if offset + 4 = length firmware then (Inr (offset + 4), issued)
        else if length firmware < offset + 8 then (Inr offset, issued)
        else
          let sublength = unat (push_bit 2 (RL32 firmware offset));
              addr = unat (RL32 firmware (offset + 4));
              offset' = offset + 8
          in if sublength > length firmware - offset' then (Inr offset', issued)
             else
               (case chunk_loop dev firmware offset' addr sublength 0 issued of
                  (Inl e, issued') \<Rightarrow> (Inl e, issued')
                | (Inr _, issued') \<Rightarrow> segment_loop dev firmware (offset' + sublength) issued')
      else (Inr offset, issued))"
  by pat_completeness auto
termination
  by (relation "measure (\<lambda>(dev, firmware, offset, issued). length firmware - offset)") auto

declare segment_loop.simps [simp del]

text \<open>
  \<^verbatim>\<open>ezusb_install_firmware\<close> from the point where the file has been opened and
  measured: the size limit, the signature, the two loops, the truncation check.
\<close>

definition ezusb_install_firmware ::
  "device \<Rightarrow> byte list \<Rightarrow> (install_error + unit) \<times> control_transfer list" where
  "ezusb_install_firmware dev firmware =
     (if length firmware > max_size then (Inl Size_exceeds_limit, [])
      else if length firmware < 4 \<or> firmware ! 0 \<noteq> 0x43 \<or> firmware ! 1 \<noteq> 0x59 \<or>
              firmware ! 3 \<noteq> 0xb0
      then (Inl Invalid_signature, [])
      else
        (case segment_loop dev firmware 4 [] of
           (Inl e, issued) \<Rightarrow> (Inl e, issued)
         | (Inr offset, issued) \<Rightarrow>
             if offset < length firmware then (Inl Firmware_truncated, issued)
             else (Inr (), issued)))"

text \<open>The \<^verbatim>\<open>int\<close> that the C function returns.\<close>

definition return_value :: "install_error + unit \<Rightarrow> int" where
  "return_value r = (case r of Inl _ \<Rightarrow> -1 | Inr _ \<Rightarrow> 0)"

subsection \<open>The parser and the chunking, as the specification describes them\<close>

text \<open>
  The source has no parser of its own: the segment loop decodes a header and uploads the
  segment in one pass. To speak about ``the segments of an image'' the parser is written
  out here as section 4.1 of the specification describes it. It yields the segments in
  file order and, where it stops on truncation, the number of bytes left unconsumed.
  \<open>segment_transfers\<close> lists the control transfers of one segment, chunk by chunk.
\<close>
record segment =
  address :: "32 word"
  byteLength :: "32 word"
  payload :: "byte list"

function spec_parse_from :: "byte list \<Rightarrow> nat \<Rightarrow> segment list \<times> nat option" where
  "spec_parse_from img offset =
     (let remaining = length img - offset
      in if remaining = 0 then ([], None)
         else if remaining = 4 then ([], None)
         else if remaining < 8 then ([], Some remaining)
         else
           let encodedLength = RL32 img offset;
               addr = RL32 img (offset + 4);
               len = push_bit 2 encodedLength
           in if unat len > remaining - 8 then ([], Some (remaining - 8))
              else
                (case spec_parse_from img (offset + 8 + unat len) of
                   (segs, truncated) \<Rightarrow>
                     (\<lparr> address = addr, byteLength = len,
                        payload = take (unat len) (drop (offset + 8) img) \<rparr> # segs,
                      truncated)))"
  by pat_completeness auto
termination
  by (relation "measure (\<lambda>(img, offset). length img - offset)") auto

declare spec_parse_from.simps [simp del]

definition spec_chunk :: "segment \<Rightarrow> nat \<Rightarrow> control_transfer" where
  "spec_chunk s k =
     (let chunkOffset = k * 4096;
          a = address s + of_nat chunkOffset
      in \<lparr> bmRequestType = 0x40, bRequest = 0xa0,
           wValue = ucast a, wIndex = ucast (drop_bit 16 a),
           data = take 4096 (drop chunkOffset (payload s)),
           timeout = 100 \<rparr>)"

definition num_chunks :: "nat \<Rightarrow> nat" where
  "num_chunks sublength = max 1 ((sublength + 4095) div 4096)"

definition segment_transfers :: "segment \<Rightarrow> control_transfer list" where
  "segment_transfers s = map (spec_chunk s) [0..<num_chunks (unat (byteLength s))]"

definition nth_chunk :: "byte list \<Rightarrow> nat \<Rightarrow> nat \<Rightarrow> nat \<Rightarrow> nat \<Rightarrow> control_transfer" where
  "nth_chunk firmware offset addr sublength k =
     chunk_transfer firmware offset addr (k * 4096) (min 4096 (sublength - k * 4096))"

datatype parse_error = InvalidSignature | ImageTooLarge

definition spec_parse :: "byte list \<Rightarrow> parse_error + segment list \<times> nat option" where
  "spec_parse img =
     (if length img > 0x86000 then Inl ImageTooLarge
      else if length img < 4 \<or> img ! 0 \<noteq> 0x43 \<or> img ! 1 \<noteq> 0x59 \<or> img ! 3 \<noteq> 0xb0
      then Inl InvalidSignature
      else Inr (spec_parse_from img 4))"

section \<open>Streaming (my\_usb\_example.c)\<close>

subsection \<open>Data\<close>

datatype libusb_transfer_status =
    LIBUSB_TRANSFER_COMPLETED
  | LIBUSB_TRANSFER_ERROR
  | LIBUSB_TRANSFER_TIMED_OUT
  | LIBUSB_TRANSFER_CANCELLED
  | LIBUSB_TRANSFER_STALL
  | LIBUSB_TRANSFER_NO_DEVICE
  | LIBUSB_TRANSFER_OVERFLOW

datatype FX3Command = STARTFX3 | STOPFX3 | STARTADC

record timeval =
  tv_sec :: int
  tv_usec :: int

text \<open>
  What one run of \<^verbatim>\<open>transfer_callback\<close> reads: the transfer it is called for (its index in
  \<^verbatim>\<open>transfers[]\<close>, its \<^verbatim>\<open>status\<close> and \<^verbatim>\<open>actual_length\<close>), the time that
  \<^verbatim>\<open>gettimeofday\<close> stores if the callback calls it, and the value that
  \<^verbatim>\<open>libusb_submit_transfer\<close> returns if the callback calls it.
\<close>

record completion =
  slot :: nat
  status :: libusb_transfer_status
  actual_length :: int
  tv_end :: timeval
  resubmit :: int

text \<open>The arguments of the two \<^verbatim>\<open>printf\<close> calls at a window boundary; the data rate is
  computed from \<open>window_size\<close> and \<open>elapsed_time\<close> (see \<open>Data_Rate\<close>).\<close>

record report =
  pass :: "32 word"
  fail :: "32 word"
  per_pass :: int
  window_size :: "32 word"
  elapsed_time :: "32 word"

text \<open>
  The global variables of the program, followed by what the program does to its
  environment: \<open>in_flight\<close> is the transport's set of transfers submitted and not yet
  completed, \<open>submissions\<close> lists the calls of \<^verbatim>\<open>libusb_submit_transfer\<close>, \<open>reports\<close>
  the window reports printed, \<open>commands\<close> the calls of \<^verbatim>\<open>command_send\<close>.
  \<^verbatim>\<open>unsigned int\<close> is a 32-bit word. \<^verbatim>\<open>xfers_in_progress\<close> is an \<^verbatim>\<open>int\<close>; it is
  shown to stay between 0 and \<^verbatim>\<open>queuedepth\<close>.
\<close>

record session =
  queuedepth :: "32 word"
  success_count :: "32 word"
  failure_count :: "32 word"
  transfer_size :: "32 word"
  transfer_index :: "32 word"
  stop_transfers :: bool
  xfers_in_progress :: int
  tv_start :: timeval
  in_flight :: "nat set"
  submissions :: "nat list"
  reports :: "report list"
  commands :: "FX3Command list"

subsection \<open>The completion callback\<close>

definition libusb_submit_transfer :: "nat \<Rightarrow> int \<Rightarrow> session \<Rightarrow> session" where
  "libusb_submit_transfer i ret s =
     s \<lparr> submissions := submissions s @ [i],
         in_flight := (if ret = 0 then insert i (in_flight s) else in_flight s) \<rparr>"

definition elapsed :: "timeval \<Rightarrow> timeval \<Rightarrow> 32 word" where
  "elapsed t0 t1 =
     word_of_int ((tv_sec t1 - tv_sec t0) * 1000000 + (tv_usec t1 - tv_usec t0))"

definition transfer_callback :: "completion \<Rightarrow> session \<Rightarrow> session" where
  "transfer_callback c s =
     (let s = s \<lparr> xfers_in_progress := xfers_in_progress s - 1 \<rparr>;
          size = (if status c \<noteq> LIBUSB_TRANSFER_COMPLETED then 0 else actual_length c);
          s = (if status c \<noteq> LIBUSB_TRANSFER_COMPLETED
               then s \<lparr> failure_count := failure_count s + 1 \<rparr>
               else s \<lparr> success_count := success_count s + 1 \<rparr>);
          s = s \<lparr> transfer_size := transfer_size s + word_of_int size \<rparr>;
          s = s \<lparr> transfer_index := transfer_index s + 1 \<rparr>;
          s = (if transfer_index s = queuedepth s
               then s \<lparr> reports := reports s @
                          [\<lparr> pass = success_count s, fail = failure_count s,
                             per_pass = actual_length c,
                             window_size = transfer_size s,
                             elapsed_time = elapsed (tv_start s) (tv_end c) \<rparr>],
                        transfer_index := 0,
                        transfer_size := 0,
                        tv_start := tv_end c \<rparr>
               else s)
      in if \<not> stop_transfers s
         then (let s = libusb_submit_transfer (slot c) (resubmit c) s
               in if resubmit c = 0
                  then s \<lparr> xfers_in_progress := xfers_in_progress s + 1 \<rparr>
                  else s)
         else s)"




subsection \<open>Signal handler, event dispatch, the loops of main\<close>

definition sig_hdlr :: "session \<Rightarrow> session" where
  "sig_hdlr s = s \<lparr> stop_transfers := True \<rparr>"

text \<open>
  What happens inside one call of \<^verbatim>\<open>libusb_handle_events\<close>: the transport completes
  transfers that are in flight, calling \<^verbatim>\<open>transfer_callback\<close> for each, one at a time;
  a SIGINT runs \<^verbatim>\<open>sig_hdlr\<close>. The transport never completes a transfer that is not in
  flight.
\<close>

datatype event = Completion completion | Sigint

definition deliver :: "completion \<Rightarrow> session \<Rightarrow> session" where
  "deliver c s =
     (if slot c \<in> in_flight s
      then transfer_callback c (s \<lparr> in_flight := in_flight s - {slot c} \<rparr>)
      else s)"

fun handle_event :: "event \<Rightarrow> session \<Rightarrow> session" where
  "handle_event (Completion c) s = deliver c s"
| "handle_event Sigint s = sig_hdlr s"

definition libusb_handle_events :: "event list \<Rightarrow> session \<Rightarrow> session" where
  "libusb_handle_events evs s = fold handle_event evs s"

text \<open>
  The two loops of \<^verbatim>\<open>main\<close>. Each consumes one element of the schedule per call of
  \<^verbatim>\<open>libusb_handle_events\<close>: the events of that call. A loop that is still running when
  the schedule ends has no result (\<open>None\<close>).
\<close>

fun dispatch_loop :: "event list list \<Rightarrow> session \<Rightarrow> (session \<times> event list list) option" where
  "dispatch_loop [] s = None"
| "dispatch_loop (evs # rest) s =
     (let s = libusb_handle_events evs s
      in if stop_transfers s \<noteq> True then dispatch_loop rest s else Some (s, rest))"

fun drain_loop :: "event list list \<Rightarrow> session \<Rightarrow> (session \<times> event list list) option" where
  "drain_loop [] s = (if xfers_in_progress s \<noteq> 0 then None else Some (s, []))"
| "drain_loop (evs # rest) s =
     (if xfers_in_progress s \<noteq> 0 then drain_loop rest (libusb_handle_events evs s)
      else Some (s, evs # rest))"

subsection \<open>Buffers\<close>

text \<open>
  Memory as far as \<^verbatim>\<open>main\<close> and \<^verbatim>\<open>free_transfer_buffers\<close> use it: a pointer is
  \<open>None\<close> (\<^verbatim>\<open>NULL\<close>) or the number of a block; \<open>live\<close> holds the blocks allocated and
  not freed, \<open>cells\<close> the contents of the two blocks that are arrays of pointers.
  \<open>avail k\<close> says whether the \<open>k\<close>-th allocation request of the program succeeds; its block
  gets the number \<open>k\<close>.
\<close>

type_synonym ptr = "nat option"

record memory =
  live :: "nat set"
  cells :: "nat \<Rightarrow> ptr list"

definition alloc :: "(nat \<Rightarrow> bool) \<Rightarrow> nat \<Rightarrow> memory \<Rightarrow> ptr \<times> memory" where
  "alloc avail k m = (if avail k then (Some k, m \<lparr> live := insert k (live m) \<rparr>) else (None, m))"

definition calloc :: "(nat \<Rightarrow> bool) \<Rightarrow> nat \<Rightarrow> nat \<Rightarrow> memory \<Rightarrow> ptr \<times> memory" where
  "calloc avail k n m =
     (if avail k
      then (Some k, m \<lparr> live := insert k (live m), cells := (cells m)(k := replicate n None) \<rparr>)
      else (None, m))"

definition free :: "ptr \<Rightarrow> memory \<Rightarrow> memory" where
  "free p m = (case p of None \<Rightarrow> m | Some b \<Rightarrow> m \<lparr> live := live m - {b} \<rparr>)"

definition store :: "nat \<Rightarrow> nat \<Rightarrow> ptr \<Rightarrow> memory \<Rightarrow> memory" where
  "store a i p m = m \<lparr> cells := (cells m)(a := (cells m a)[i := p]) \<rparr>"

text \<open>The allocation loop of \<^verbatim>\<open>main\<close> (lines 250 to 257); the result is \<^verbatim>\<open>allocfail\<close>.\<close>

fun alloc_loop :: "(nat \<Rightarrow> bool) \<Rightarrow> nat \<Rightarrow> nat \<Rightarrow> nat list \<Rightarrow> memory \<Rightarrow> bool \<times> memory" where
  "alloc_loop avail databuffers transfers [] m = (False, m)"
| "alloc_loop avail databuffers transfers (i # rest) m =
     (let (b, m) = alloc avail (2 * i + 2) m;
          m = store databuffers i b m;
          (t, m) = alloc avail (2 * i + 3) m;
          m = store transfers i t m
      in if b = None \<or> t = None then (True, m)
         else alloc_loop avail databuffers transfers rest m)"

text \<open>One of the two \<^verbatim>\<open>for\<close> loops of \<^verbatim>\<open>free_transfer_buffers\<close>, and the function.\<close>

definition free_entries :: "nat \<Rightarrow> nat \<Rightarrow> memory \<Rightarrow> memory" where
  "free_entries n a m =
     fold (\<lambda>i m. store a i None (if cells m a ! i \<noteq> None then free (cells m a ! i) m else m))
       [0..<n] m"

definition free_transfer_buffers :: "nat \<Rightarrow> ptr \<Rightarrow> ptr \<Rightarrow> memory \<Rightarrow> memory" where
  "free_transfer_buffers n databuffers transfers m =
     (let m = (case databuffers of None \<Rightarrow> m | Some a \<Rightarrow> free (Some a) (free_entries n a m));
          m = (case transfers of None \<Rightarrow> m | Some a \<Rightarrow> free (Some a) (free_entries n a m))
      in m)"

subsection \<open>main, from the allocation of the buffers on\<close>

datatype main_error = Undefined_behaviour

text \<open>Reading \<^verbatim>\<open>array[i]\<close>: undefined (\<open>None\<close>) through a null pointer, in a freed block
  or out of bounds.\<close>

definition read_entry :: "memory \<Rightarrow> ptr \<Rightarrow> nat \<Rightarrow> ptr option" where
  "read_entry m array i =
     (case array of
        None \<Rightarrow> None
      | Some a \<Rightarrow> if a \<in> live m \<and> i < length (cells m a) then Some (cells m a ! i) else None)"

definition initial_session :: "32 word \<Rightarrow> timeval \<Rightarrow> session" where
  "initial_session qd tv =
     \<lparr> queuedepth = qd, success_count = 0, failure_count = 0, transfer_size = 0,
       transfer_index = 0, stop_transfers = False, xfers_in_progress = 0, tv_start = tv,
       in_flight = {}, submissions = [], reports = [], commands = [] \<rparr>"

text \<open>One pass of the submission loop of \<^verbatim>\<open>main\<close> (lines 270 to 277), and the loop.
  \<^verbatim>\<open>libusb_fill_bulk_transfer\<close> writes through \<^verbatim>\<open>transfers[i]\<close>.\<close>

definition submit_initial :: "(nat \<Rightarrow> int) \<Rightarrow> nat \<Rightarrow> session \<Rightarrow> session" where
  "submit_initial rStatus i s =
     (let s = libusb_submit_transfer i (rStatus i) s
      in if rStatus i = 0 then s \<lparr> xfers_in_progress := xfers_in_progress s + 1 \<rparr> else s)"

fun submit_loop ::
  "memory \<Rightarrow> ptr \<Rightarrow> ptr \<Rightarrow> (nat \<Rightarrow> int) \<Rightarrow> nat list \<Rightarrow> session \<Rightarrow> main_error + session" where
  "submit_loop m databuffers transfers rStatus [] s = Inr s"
| "submit_loop m databuffers transfers rStatus (i # rest) s =
     (case (read_entry m transfers i, read_entry m databuffers i) of
        (Some (Some t), Some b) \<Rightarrow>
          if t \<in> live m
          then submit_loop m databuffers transfers rStatus rest (submit_initial rStatus i s)
          else Inl Undefined_behaviour
      | _ \<Rightarrow> Inl Undefined_behaviour)"

definition command_send :: "FX3Command \<Rightarrow> session \<Rightarrow> session" where
  "command_send cmd s = s \<lparr> commands := commands s @ [cmd] \<rparr>"

text \<open>The allocation of the buffers (lines 243 to 261): the two arrays, \<^verbatim>\<open>allocfail\<close>, and
  the memory.\<close>

definition main_alloc :: "32 word \<Rightarrow> (nat \<Rightarrow> bool) \<Rightarrow> ptr \<times> ptr \<times> bool \<times> memory" where
  "main_alloc qd avail =
     (let n = unat qd;
          m = \<lparr> live = {}, cells = (\<lambda>_. []) \<rparr>;
          (databuffers, m) = calloc avail 0 n m;
          (transfers, m) = calloc avail 1 n m;
          (allocfail, m) =
            (case (databuffers, transfers) of
               (Some d, Some t) \<Rightarrow> alloc_loop avail d t [0..<n] m
             | _ \<Rightarrow> (True, m))
      in (databuffers, transfers, allocfail, m))"

text \<open>
  \<^verbatim>\<open>main\<close> from line 243 to the end. After a failed allocation the buffers are freed and
  control goes on to the submission loop: there is no \<^verbatim>\<open>return\<close> and no \<^verbatim>\<open>goto\<close> in the
  \<^verbatim>\<open>if (allocfail)\<close> block. The result is \<open>None\<close> when a loop is still running at the
  end of the schedule.
\<close>

definition main_stream ::
  "32 word \<Rightarrow> (nat \<Rightarrow> bool) \<Rightarrow> timeval \<Rightarrow> (nat \<Rightarrow> int) \<Rightarrow> event list list
     \<Rightarrow> (main_error + session \<times> memory) option" where
  "main_stream qd avail tv rStatus schedule =
     (let n = unat qd;
          (databuffers, transfers, allocfail, m) = main_alloc qd avail;
          m = (if allocfail then free_transfer_buffers n databuffers transfers m else m)
      in case submit_loop m databuffers transfers rStatus [0..<n] (initial_session qd tv) of
           Inl e \<Rightarrow> Some (Inl e)
         | Inr s \<Rightarrow>
             (case dispatch_loop schedule (command_send STARTFX3 (command_send STARTADC s)) of
                None \<Rightarrow> None
              | Some (s, rest) \<Rightarrow>
                  (case drain_loop rest (s \<lparr> stop_transfers := True \<rparr>) of
                     None \<Rightarrow> None
                   | Some (s, rest) \<Rightarrow>
                       Some (Inr (command_send STOPFX3 s,
                                  free_transfer_buffers n databuffers transfers m)))))"

subsection \<open>The states of a session\<close>

text \<open>
  The states the session passes through: the start, the passes of the submission loop
  (no callback runs before \<^verbatim>\<open>libusb_handle_events\<close> is called), the commands, the events
  of the dispatch calls, and the stop flag set by the signal handler at any moment or by
  \<^verbatim>\<open>main\<close> after its first loop.
\<close>

inductive reachable :: "32 word \<Rightarrow> session \<Rightarrow> bool" for qd :: "32 word" where
  start: "reachable qd (initial_session qd tv)"
| submit: "reachable qd s \<Longrightarrow> length (submissions s) < unat qd \<Longrightarrow>
           reachable qd (submit_initial rStatus (length (submissions s)) s)"
| command: "reachable qd s \<Longrightarrow> reachable qd (command_send cmd s)"
| event: "reachable qd s \<Longrightarrow> unat qd \<le> length (submissions s) \<Longrightarrow>
          reachable qd (handle_event e s)"
| stop: "reachable qd s \<Longrightarrow> reachable qd (s \<lparr> stop_transfers := True \<rparr>)"

text \<open>The invariant of the session: \<^verbatim>\<open>xfers_in_progress\<close> counts the transfers in flight,
  which are among the first \<^verbatim>\<open>queuedepth\<close> submitted.\<close>

definition session_inv :: "32 word \<Rightarrow> session \<Rightarrow> bool" where
  "session_inv qd s =
     (queuedepth s = qd \<and> finite (in_flight s) \<and>
      in_flight s \<subseteq> {..<min (length (submissions s)) (unat qd)} \<and>
      xfers_in_progress s = int (card (in_flight s)))"

text \<open>The transfers that the events of a schedule complete.\<close>

definition completed_slots :: "event list \<Rightarrow> nat set" where
  "completed_slots evs =
     set (concat (map (\<lambda>e. case e of Completion c \<Rightarrow> [slot c] | Sigint \<Rightarrow> []) evs))"

text \<open>The blocks reachable from an array of pointers: the array and its entries.\<close>

definition blocks_of :: "memory \<Rightarrow> ptr \<Rightarrow> nat set" where
  "blocks_of m array =
     (case array of None \<Rightarrow> {} | Some a \<Rightarrow> insert a {b. Some b \<in> set (cells m a)})"

subsection \<open>Abbreviations used in the statements\<close>

text \<open>The bytes one completion adds to the window (\<^verbatim>\<open>size\<close> in the callback, as
  added to the \<^verbatim>\<open>unsigned int transfer_size\<close>), the report printed when the completion
  closes a window, and the test of the callback's first branch.\<close>

definition csize :: "completion \<Rightarrow> 32 word" where
  "csize c = word_of_int (if status c \<noteq> LIBUSB_TRANSFER_COMPLETED then 0 else actual_length c)"


definition completed :: "completion \<Rightarrow> bool" where
  "completed c = (status c = LIBUSB_TRANSFER_COMPLETED)"

section \<open>Concrete inputs\<close>

definition device_ok :: device where
  "device_ok n = 0"

definition img_scenario_A :: "byte list" where
  "img_scenario_A = [0x43, 0x59, 0x00, 0xb0,  1, 0, 0, 0,  0, 0, 0, 0,  0xde, 0xad, 0xbe, 0xef]"

definition img_zero_length :: "byte list" where
  "img_zero_length = [0x43, 0x59, 0x00, 0xb0,  0, 0, 0, 0,  0, 0, 0, 0x40]"

definition img_header_at_end :: "byte list" where
  "img_header_at_end = [0x43, 0x59, 0x00, 0xb0,  1, 0, 0, 0,  0, 0, 0, 0]"

definition img_wrapped_length :: "byte list" where
  "img_wrapped_length = [0x43, 0x59, 0x00, 0xb0,  0, 0, 0, 0x40,  0x00, 0x01, 0, 0]"

definition img_oversized :: "byte list" where
  "img_oversized = replicate 0x86001 0"

definition img_bad_marker :: "byte list" where
  "img_bad_marker = [0x43, 0x59, 0x00, 0xb1,  1, 0, 0, 0,  0, 0, 0, 0,  0xde, 0xad, 0xbe, 0xef]"


definition timeval0 :: timeval where
  "timeval0 = \<lparr> tv_sec = 0, tv_usec = 0 \<rparr>"

definition completion_ok :: completion where
  "completion_ok = \<lparr> slot = 0, status = LIBUSB_TRANSFER_COMPLETED, actual_length = 131072,
     tv_end = timeval0, resubmit = 0 \<rparr>"

definition session_running :: session where
  "session_running = fold (submit_initial (\<lambda>i. 0)) [0..<16] (initial_session 16 timeval0)"








section \<open>Firmware upload: proofs\<close>

lemma low16_of_nat:
  "(of_nat (s AND 0xffff) :: 16 word) = ucast (of_nat s :: 32 word)"
proof -
  have m: "(0xffff :: nat) = mask 16" by (simp add: mask_eq_exp_minus_1)
  show ?thesis unfolding m by (rule bit_word_eqI) (simp add: bit_simps)
qed

lemma high16_of_nat:
  "(of_nat (drop_bit 16 s) :: 16 word) = ucast (drop_bit 16 (of_nat s :: 32 word))"
  by (rule bit_word_eqI) (auto simp add: bit_simps)

lemma wValue_low16:
  "(of_nat ((unat (a :: 32 word) + n) AND 0xffff) :: 16 word) = ucast (a + of_nat n)"
proof -
  define s where "s = unat a + n"
  have e: "a + of_nat n = (of_nat s :: 32 word)" by (simp add: s_def)
  show ?thesis unfolding e s_def [symmetric] by (rule low16_of_nat)
qed

lemma wIndex_high16:
  "(of_nat (drop_bit 16 (unat (a :: 32 word) + n)) :: 16 word) = ucast (drop_bit 16 (a + of_nat n))"
proof -
  define s where "s = unat a + n"
  have e: "a + of_nat n = (of_nat s :: 32 word)" by (simp add: s_def)
  show ?thesis unfolding e s_def [symmetric] by (rule high16_of_nat)
qed

lemma req_type: "LIBUSB_REQUEST_TYPE_VENDOR OR LIBUSB_ENDPOINT_OUT = 0x40"
  by (simp add: LIBUSB_REQUEST_TYPE_VENDOR_def LIBUSB_ENDPOINT_OUT_def)

lemma chunk_data:
  "take (min 4096 (sl - k * 4096)) (drop (off + k * 4096) fw) =
   take 4096 (drop (k * 4096) (take sl (drop off fw)))"
  by (simp only: drop_take take_take drop_drop add.commute)

lemma nth_chunk_spec:
  "nth_chunk fw off (unat a) sl k =
     spec_chunk \<lparr> address = a, byteLength = bl, payload = take sl (drop off fw) \<rparr> k"
  by (simp only: nth_chunk_def chunk_transfer_def spec_chunk_def Let_def req_type
        wValue_low16 wIndex_high16 chunk_data segment.simps)

lemma num_chunks_pos: "0 < num_chunks sl"
  by (simp add: num_chunks_def)

lemma num_chunks_more: "k + 1 < num_chunks sl \<Longrightarrow> (k + 1) * 4096 < sl"
  by (auto simp: num_chunks_def max_def split: if_splits)

lemma num_chunks_last: "k + 1 = num_chunks sl \<Longrightarrow> k * 4096 \<le> sl \<and> sl \<le> (k + 1) * 4096"
  by (auto simp: num_chunks_def max_def split: if_splits)

lemma chunk_loop_step_more:
  assumes "k + 1 < num_chunks sl"
  shows "chunk_loop dev fw off addr sl (k * 4096) issued =
     (if dev (length issued) < 0
      then (Inl (Unable_to_send (dev (length issued))), issued @ [nth_chunk fw off addr sl k])
      else chunk_loop dev fw off addr sl ((k + 1) * 4096) (issued @ [nth_chunk fw off addr sl k]))"
proof -
  from num_chunks_more [OF assms] have lt: "(k + 1) * 4096 < sl" .
  then have cs: "MIN_size_t (sl - k * 4096) FW_CHUNKSIZE = 4096"
    by (simp add: MIN_size_t_def FW_CHUNKSIZE_def)
  have m: "min 4096 (sl - k * 4096) = 4096" using lt by simp
  show ?thesis
    using lt by (subst chunk_loop.simps) (simp add: cs nth_chunk_def m Let_def add.commute)
qed

lemma chunk_loop_step_last:
  assumes "k + 1 = num_chunks sl"
  shows "chunk_loop dev fw off addr sl (k * 4096) issued =
     (if dev (length issued) < 0
      then (Inl (Unable_to_send (dev (length issued))), issued @ [nth_chunk fw off addr sl k])
      else (Inr (), issued @ [nth_chunk fw off addr sl k]))"
proof -
  from num_chunks_last [OF assms] have b: "k * 4096 \<le> sl" "sl \<le> (k + 1) * 4096" by simp_all
  then have cs: "MIN_size_t (sl - k * 4096) FW_CHUNKSIZE = min 4096 (sl - k * 4096)"
    by (simp add: MIN_size_t_def FW_CHUNKSIZE_def min_def)
  have stop: "\<not> k * 4096 + min 4096 (sl - k * 4096) < sl" using b by (simp add: min_def)
  show ?thesis
    by (subst chunk_loop.simps) (simp only: cs Let_def stop if_False nth_chunk_def)
qed


lemma chunk_loop_ok:
  assumes ok: "\<forall>n. 0 \<le> dev n"
  shows "k < num_chunks sl \<Longrightarrow>
    chunk_loop dev fw off addr sl (k * 4096) issued =
      (Inr (), issued @ map (nth_chunk fw off addr sl) [k..<num_chunks sl])"
proof (induction "num_chunks sl - k" arbitrary: k issued)
  case 0
  then show ?case by simp
next
  case (Suc d)
  have nneg: "\<not> dev (length issued) < 0" using ok by (simp add: not_less)
  show ?case
  proof (cases "k + 1 < num_chunks sl")
    case True
    have "d = num_chunks sl - (k + 1)" using Suc.hyps(2) by simp
    from Suc.hyps(1) [OF this True]
    have "chunk_loop dev fw off addr sl ((k + 1) * 4096) (issued @ [nth_chunk fw off addr sl k]) =
       (Inr (), (issued @ [nth_chunk fw off addr sl k]) @
          map (nth_chunk fw off addr sl) [k + 1..<num_chunks sl])" .
    then show ?thesis
      using True nneg Suc.prems by (simp add: chunk_loop_step_more upt_conv_Cons)
  next
    case False
    then have last: "k + 1 = num_chunks sl" using Suc.prems by simp
    have "[k..<num_chunks sl] = [k]" using last [symmetric] by simp
    then show ?thesis using nneg by (simp add: chunk_loop_step_last [OF last])
  qed
qed



lemma segment_transfers_parsed:
  "segment_transfers \<lparr> address = a, byteLength = bl, payload = take (unat bl) (drop off fw) \<rparr> =
     map (nth_chunk fw off (unat a) (unat bl)) [0..<num_chunks (unat bl)]"
  by (simp add: segment_transfers_def nth_chunk_spec [where bl = bl])

lemma segment_loop_end:
  "length fw \<le> off \<Longrightarrow> segment_loop dev fw off issued = (Inr off, issued)"
  by (subst segment_loop.simps) simp

lemma spec_parse_from_end:
  "length fw \<le> off \<Longrightarrow> spec_parse_from fw off = ([], None)"
  by (subst spec_parse_from.simps) simp

lemma segment_loop_checksum:
  "off + 4 = length fw \<Longrightarrow> segment_loop dev fw off issued = (Inr (off + 4), issued)"
  by (subst segment_loop.simps) simp

lemma spec_parse_from_checksum:
  "off + 4 = length fw \<Longrightarrow> spec_parse_from fw off = ([], None)"
  by (subst spec_parse_from.simps) (simp add: Let_def)

lemma segment_loop_short:
  "off < length fw \<Longrightarrow> off + 4 \<noteq> length fw \<Longrightarrow> length fw < off + 8 \<Longrightarrow>
     segment_loop dev fw off issued = (Inr off, issued)"
  by (subst segment_loop.simps) simp

lemma spec_parse_from_short:
  "off < length fw \<Longrightarrow> off + 4 \<noteq> length fw \<Longrightarrow> length fw < off + 8 \<Longrightarrow>
     spec_parse_from fw off = ([], Some (length fw - off))"
  by (subst spec_parse_from.simps) (auto simp add: Let_def)

lemma segment_loop_too_long:
  "off + 8 \<le> length fw \<Longrightarrow> off + 4 \<noteq> length fw \<Longrightarrow>
   length fw - (off + 8) < unat (push_bit 2 (RL32 fw off)) \<Longrightarrow>
     segment_loop dev fw off issued = (Inr (off + 8), issued)"
  by (subst segment_loop.simps) (simp add: Let_def)

lemma spec_parse_from_too_long:
  "off + 8 \<le> length fw \<Longrightarrow> off + 4 \<noteq> length fw \<Longrightarrow>
   length fw - (off + 8) < unat (push_bit 2 (RL32 fw off)) \<Longrightarrow>
     spec_parse_from fw off = ([], Some (length fw - (off + 8)))"
  by (subst spec_parse_from.simps) (auto simp add: Let_def)

lemma segment_loop_segment:
  "off + 8 \<le> length fw \<Longrightarrow> off + 4 \<noteq> length fw \<Longrightarrow>
   \<not> length fw - (off + 8) < unat (push_bit 2 (RL32 fw off)) \<Longrightarrow>
     segment_loop dev fw off issued =
       (case chunk_loop dev fw (off + 8) (unat (RL32 fw (off + 4)))
               (unat (push_bit 2 (RL32 fw off))) 0 issued of
          (Inl e, issued') \<Rightarrow> (Inl e, issued')
        | (Inr _, issued') \<Rightarrow>
            segment_loop dev fw (off + 8 + unat (push_bit 2 (RL32 fw off))) issued')"
  by (subst segment_loop.simps) (simp add: Let_def)

lemma spec_parse_from_segment:
  "off + 8 \<le> length fw \<Longrightarrow> off + 4 \<noteq> length fw \<Longrightarrow>
   \<not> length fw - (off + 8) < unat (push_bit 2 (RL32 fw off)) \<Longrightarrow>
     spec_parse_from fw off =
       (\<lparr> address = RL32 fw (off + 4), byteLength = push_bit 2 (RL32 fw off),
          payload = take (unat (push_bit 2 (RL32 fw off))) (drop (off + 8) fw) \<rparr>
          # fst (spec_parse_from fw (off + 8 + unat (push_bit 2 (RL32 fw off)))),
        snd (spec_parse_from fw (off + 8 + unat (push_bit 2 (RL32 fw off)))))"
  by (subst spec_parse_from.simps) (auto simp add: Let_def split: prod.splits)

lemma loop_cases:
  fixes fw :: "byte list" and off :: nat
  obtains (finished) "length fw \<le> off"
  | (checksum) "off + 4 = length fw"
  | (short) "off < length fw" "off + 4 \<noteq> length fw" "length fw < off + 8"
  | (too_long) "off + 8 \<le> length fw" "off + 4 \<noteq> length fw"
      "length fw - (off + 8) < unat (push_bit 2 (RL32 fw off))"
  | (segment) "off + 8 \<le> length fw" "off + 4 \<noteq> length fw"
      "\<not> length fw - (off + 8) < unat (push_bit 2 (RL32 fw off))"
  by (cases "length fw \<le> off"; cases "off + 4 = length fw"; cases "length fw < off + 8";
      cases "length fw - (off + 8) < unat (push_bit 2 (RL32 fw off))") auto

lemma segment_loop_ok:
  assumes ok: "\<forall>n. 0 \<le> dev n"
  shows "snd (segment_loop dev fw off issued) =
           issued @ concat (map segment_transfers (fst (spec_parse_from fw off)))"
proof (induction "length fw - off" arbitrary: off issued rule: less_induct)
  case less
  show ?case
  proof (cases fw off rule: loop_cases)
    case finished
    then show ?thesis by (simp add: segment_loop_end spec_parse_from_end)
  next
    case checksum
    then show ?thesis by (simp add: segment_loop_checksum spec_parse_from_checksum)
  next
    case short
    then show ?thesis by (simp add: segment_loop_short spec_parse_from_short)
  next
    case too_long
    then show ?thesis by (simp add: segment_loop_too_long spec_parse_from_too_long)
  next
    case segment
    define sl where "sl = unat (push_bit 2 (RL32 fw off))"
    define a where "a = RL32 fw (off + 4)"
    define chunks where "chunks = map (nth_chunk fw (off + 8) (unat a) sl) [0..<num_chunks sl]"
    have c: "chunk_loop dev fw (off + 8) (unat a) sl 0 issued = (Inr (), issued @ chunks)"
      using chunk_loop_ok [OF ok, of 0 sl fw "off + 8" "unat a" issued]
      by (simp add: num_chunks_pos chunks_def)
    have "length fw - (off + 8 + sl) < length fw - off" using segment by simp
    from less [OF this]
    have ih: "snd (segment_loop dev fw (off + 8 + sl) (issued @ chunks)) =
        (issued @ chunks) @ concat (map segment_transfers (fst (spec_parse_from fw (off + 8 + sl))))" .
    have t: "segment_transfers \<lparr> address = a, byteLength = push_bit 2 (RL32 fw off),
          payload = take sl (drop (off + 8) fw) \<rparr> = chunks"
      unfolding chunks_def sl_def by (rule segment_transfers_parsed)
    show ?thesis
      using segment_loop_segment [OF segment, of dev issued] spec_parse_from_segment [OF segment]
      by (simp add: c ih t flip: sl_def a_def)
  qed
qed



lemma segment_loop_offset:
  assumes ok: "\<forall>n. 0 \<le> dev n"
  shows "off \<le> length fw \<Longrightarrow>
    fst (segment_loop dev fw off issued) =
      Inr (length fw - (case snd (spec_parse_from fw off) of None \<Rightarrow> 0 | Some r \<Rightarrow> r))"
proof (induction "length fw - off" arbitrary: off issued rule: less_induct)
  case less
  show ?case
  proof (cases fw off rule: loop_cases)
    case finished
    then show ?thesis using less.prems by (simp add: segment_loop_end spec_parse_from_end)
  next
    case checksum
    then show ?thesis by (auto simp add: segment_loop_checksum spec_parse_from_checksum)
  next
    case short
    then show ?thesis by (simp add: segment_loop_short spec_parse_from_short)
  next
    case too_long
    then show ?thesis by (simp add: segment_loop_too_long spec_parse_from_too_long)
  next
    case segment
    define sl where "sl = unat (push_bit 2 (RL32 fw off))"
    define a where "a = RL32 fw (off + 4)"
    have c: "chunk_loop dev fw (off + 8) (unat a) sl 0 issued =
        (Inr (), issued @ map (nth_chunk fw (off + 8) (unat a) sl) [0..<num_chunks sl])"
      using chunk_loop_ok [OF ok, of 0 sl fw "off + 8" "unat a" issued]
      by (simp add: num_chunks_pos)
    have "length fw - (off + 8 + sl) < length fw - off" "off + 8 + sl \<le> length fw"
      using segment by (simp_all add: sl_def)
    from less.hyps [OF this]
    have ih: "fst (segment_loop dev fw (off + 8 + sl) issued') =
        Inr (length fw - (case snd (spec_parse_from fw (off + 8 + sl)) of None \<Rightarrow> 0 | Some r \<Rightarrow> r))"
      for issued' .
    show ?thesis
      using segment_loop_segment [OF segment, of dev issued] spec_parse_from_segment [OF segment]
      by (simp add: c ih flip: sl_def a_def)
  qed
qed

lemmas install_unfold =
  ezusb_install_firmware_def max_size_def segment_loop.simps chunk_loop.simps RL32_def
  MIN_size_t_def FW_CHUNKSIZE_def chunk_transfer_def
  LIBUSB_REQUEST_TYPE_VENDOR_def LIBUSB_ENDPOINT_OUT_def

lemmas parse_unfold = spec_parse_def spec_parse_from.simps RL32_def

lemma install_log:
  "spec_parse img = Inr (segs, truncated) \<Longrightarrow>
     snd (ezusb_install_firmware dev img) = snd (segment_loop dev img 4 [])"
  by (auto simp: spec_parse_def ezusb_install_firmware_def max_size_def
           split: if_splits prod.splits sum.splits)

lemma install_log_rejected:
  "spec_parse img = Inl e \<Longrightarrow> snd (ezusb_install_firmware dev img) = []"
  by (auto simp: spec_parse_def ezusb_install_firmware_def max_size_def split: if_splits)

lemma payload_length:
  "s \<in> set (fst (spec_parse_from fw off)) \<Longrightarrow> length (payload s) = unat (byteLength s)"
proof (induction "length fw - off" arbitrary: off rule: less_induct)
  case less
  show ?case
  proof (cases fw off rule: loop_cases)
    case finished
    with less.prems show ?thesis by (simp add: spec_parse_from_end)
  next
    case checksum
    with less.prems show ?thesis by (simp add: spec_parse_from_checksum)
  next
    case short
    with less.prems show ?thesis by (simp add: spec_parse_from_short)
  next
    case too_long
    with less.prems show ?thesis by (simp add: spec_parse_from_too_long)
  next
    case segment
    have "length fw - (off + 8 + unat (push_bit 2 (RL32 fw off))) < length fw - off"
      using segment by simp
    from less.hyps [OF this] less.prems segment(3) show ?thesis
      by (auto simp add: spec_parse_from_segment [OF segment])
  qed
qed

lemma spec_parse_from_remainder:
  "snd (spec_parse_from fw off) = Some r \<Longrightarrow> r \<le> length fw - off"
proof (induction "length fw - off" arbitrary: off rule: less_induct)
  case less
  show ?case
  proof (cases fw off rule: loop_cases)
    case finished
    with less.prems show ?thesis by (simp add: spec_parse_from_end)
  next
    case checksum
    with less.prems show ?thesis by (simp add: spec_parse_from_checksum)
  next
    case short
    with less.prems show ?thesis by (simp add: spec_parse_from_short)
  next
    case too_long
    with less.prems show ?thesis by (auto simp add: spec_parse_from_too_long)
  next
    case segment
    have "length fw - (off + 8 + unat (push_bit 2 (RL32 fw off))) < length fw - off"
      using segment by simp
    from less.hyps [OF this] less.prems segment(3) show ?thesis
      by (auto simp add: spec_parse_from_segment [OF segment])
  qed
qed

lemma length_segment_transfers:
  "length (segment_transfers s) = max 1 ((unat (byteLength s) + 4095) div 4096)"
  by (simp add: segment_transfers_def num_chunks_def)

lemma data_segment_transfers:
  "k < length (segment_transfers s) \<Longrightarrow>
     data (segment_transfers s ! k) = take 4096 (drop (k * 4096) (payload s))"
  by (simp add: segment_transfers_def spec_chunk_def Let_def)

lemma concat_chunks: "concat (map (\<lambda>k. take c (drop (k * c) p)) [0..<n]) = take (n * c) p"
proof (induction n)
  case 0
  then show ?case by simp
next
  case (Suc n)
  have "take (n * c) p @ take c (drop (n * c) p) = take (n * c + c) p"
    by (simp add: take_add)
  with Suc show ?case by (simp add: add.commute)
qed

lemma num_chunks_covers: "n \<le> num_chunks n * 4096"
proof -
  have "(n + 4095) div 4096 * 4096 + (n + 4095) mod 4096 = n + 4095" by simp
  moreover have "(n + 4095) mod 4096 < 4096" by simp
  ultimately have "n \<le> (n + 4095) div 4096 * 4096" by linarith
  also have "\<dots> \<le> num_chunks n * 4096" by (simp add: num_chunks_def)
  finally show ?thesis .
qed

lemma concat_segment_data:
  assumes "length (payload s) = unat (byteLength s)"
  shows "concat (map data (segment_transfers s)) = payload s"
proof -
  have "map data (segment_transfers s) =
        map (\<lambda>k. take 4096 (drop (k * 4096) (payload s))) [0..<num_chunks (unat (byteLength s))]"
    by (simp add: segment_transfers_def spec_chunk_def Let_def comp_def)
  moreover have "length (payload s) \<le> num_chunks (unat (byteLength s)) * 4096"
    unfolding assms by (rule num_chunks_covers)
  ultimately show ?thesis by (simp add: concat_chunks)
qed

text \<open>
  Claim C1, as amended. When no transfer fails, the transfers issued for an accepted image
  are, segment by segment in file order, the chunks of each parsed segment: a segment of
  \<open>byteLength\<close> bytes gets \<open>max 1 \<lceil>byteLength / 4096\<rceil>\<close> transfers, chunk \<open>k\<close> carries the
  4096 bytes of the payload from \<open>4096 * k\<close> on (fewer in the last chunk), and the chunks
  together are the payload. Nothing else is transferred, so the trailing checksum gets no
  transfer. A segment of length 0 gets one transfer with an empty data stage: the loop is a
  \<^verbatim>\<open>do ... while\<close>.
\<close>
theorem upload_transfers_per_segment:
  assumes ok: "\<forall>n. 0 \<le> dev n"
    and parse: "spec_parse img = Inr (segs, truncated)"
  shows "snd (ezusb_install_firmware dev img) = concat (map segment_transfers segs) \<and>
    (\<forall>s \<in> set segs.
       length (segment_transfers s) = max 1 ((unat (byteLength s) + 4095) div 4096) \<and>
       (\<forall>k < length (segment_transfers s).
          data (segment_transfers s ! k) = take 4096 (drop (k * 4096) (payload s)) \<and>
          length (data (segment_transfers s ! k)) = min 4096 (unat (byteLength s) - k * 4096)) \<and>
       concat (map data (segment_transfers s)) = payload s)"
proof -
  from parse have segs: "segs = fst (spec_parse_from img 4)"
    by (auto simp: spec_parse_def split: if_splits)
  have "snd (ezusb_install_firmware dev img) = concat (map segment_transfers segs)"
    using install_log [OF parse] segment_loop_ok [OF ok, of img 4 "[]"] segs by simp
  moreover have "\<forall>s \<in> set segs. length (payload s) = unat (byteLength s)"
    using payload_length segs by blast
  ultimately show ?thesis
    by (simp add: length_segment_transfers data_segment_transfers concat_segment_data
          min.commute)
qed

text \<open>Witness for C1: scenario A of the specification, one segment of 4 bytes at address 0.\<close>
theorem upload_transfers_per_segment_witness:
  "(\<forall>n. 0 \<le> device_ok n) \<and>
   spec_parse img_scenario_A =
      Inr ([\<lparr> address = 0, byteLength = 4, payload = [0xde, 0xad, 0xbe, 0xef] \<rparr>], None) \<and>
   snd (ezusb_install_firmware device_ok img_scenario_A) =
     [\<lparr> bmRequestType = 0x40, bRequest = 0xa0, wValue = 0, wIndex = 0,
        data = [0xde, 0xad, 0xbe, 0xef], timeout = 100 \<rparr>]"
proof -
  have ok: "\<forall>n. 0 \<le> device_ok n" by (simp add: device_ok_def)
  have parse: "spec_parse img_scenario_A =
      Inr ([\<lparr> address = 0, byteLength = 4, payload = [0xde, 0xad, 0xbe, 0xef] \<rparr>], None)"
    by (simp add: parse_unfold img_scenario_A_def)
  show ?thesis
    using upload_transfers_per_segment [OF ok parse] ok parse
    by (simp add: segment_transfers_def num_chunks_def spec_chunk_def)
qed

text \<open>
  Counterexample to C1 as stated: an image whose only segment has \<open>byteLength = 0\<close>
  (\<open>\<lceil>0 / 4096\<rceil> = 0\<close>) makes the uploader issue one control transfer.
\<close>
theorem zero_length_segment_one_transfer:
  "spec_parse img_zero_length =
     Inr ([\<lparr> address = 0x40000000, byteLength = 0, payload = [] \<rparr>], None) \<and>
   (unat (0 :: 32 word) + 4095) div 4096 = 0 \<and>
   ezusb_install_firmware device_ok img_zero_length =
     (Inr (), [\<lparr> bmRequestType = 0x40, bRequest = 0xa0, wValue = 0, wIndex = 0x4000,
                 data = [], timeout = 100 \<rparr>])"
  by (simp add: parse_unfold install_unfold img_zero_length_def device_ok_def)


text \<open>When every transfer succeeds, the result of the install follows the parser's verdict,
  except where the truncated segment's header ends the file.\<close>

lemma install_result:
  assumes ok: "\<forall>n. 0 \<le> dev n"
    and parse: "spec_parse img = Inr (segs, truncation)"
  shows "fst (ezusb_install_firmware dev img) =
    (case truncation of
       None \<Rightarrow> Inr ()
     | Some r \<Rightarrow> if 0 < r then Inl Firmware_truncated else Inr ())"
proof -
  from parse have p: "length img \<le> max_size" "4 \<le> length img"
    "img ! 0 = 0x43" "img ! 1 = 0x59" "img ! 3 = 0xb0"
    "snd (spec_parse_from img 4) = truncation"
    by (auto simp: spec_parse_def max_size_def split: if_splits)
  obtain r issued where sl: "segment_loop dev img 4 [] = (r, issued)"
    by (cases "segment_loop dev img 4 []")
  with segment_loop_offset [OF ok p(2), of "[]"] p(6)
  have r: "r = Inr (length img - (case truncation of None \<Rightarrow> 0 | Some r \<Rightarrow> r))" by simp
  have "case truncation of None \<Rightarrow> True | Some r \<Rightarrow> r \<le> length img - 4"
    using p(2,6) spec_parse_from_remainder [of img 4] by (simp split: option.splits)
  then show ?thesis
    using p(1-5) by (auto simp add: ezusb_install_firmware_def sl r split: option.splits)
qed

text \<open>
  Claim C2 at the image \<open>img_header_at_end\<close>: the segment header declares 4 bytes and
  ends the file. The parser of the specification reports truncation with 0 bytes left;
  \<^verbatim>\<open>ezusb_install_firmware\<close> leaves the loop with \<^verbatim>\<open>offset = length\<close>, so its test
  \<^verbatim>\<open>offset < length\<close> fails and it returns 0, for any device.
\<close>
theorem header_at_end_not_reported:
  "spec_parse img_header_at_end = Inr ([], Some 0) \<and>
   length img_header_at_end - 12 < unat (push_bit 2 (RL32 img_header_at_end 4)) \<and>
   ezusb_install_firmware dev img_header_at_end = (Inr (), []) \<and>
   return_value (fst (ezusb_install_firmware dev img_header_at_end)) = 0"
  by (simp add: parse_unfold install_unfold img_header_at_end_def return_value_def)

text \<open>Witness for C2: the same image on a device that accepts every transfer.\<close>

theorem header_at_end_not_reported_witness:
  "spec_parse img_header_at_end = Inr ([], Some 0) \<and>
   ezusb_install_firmware device_ok img_header_at_end = (Inr (), []) \<and>
   return_value (fst (ezusb_install_firmware device_ok img_header_at_end)) = 0"
  using header_at_end_not_reported [of device_ok] by blast

text \<open>
  Claim C3, as amended. An image of at most \<open>max_size\<close> bytes that is shorter than 4 bytes,
  or whose byte 0 is not \<open>C\<close>, or whose byte 1 is not \<open>Y\<close>, or whose byte 3 is not
  \<open>0xB0\<close>, is refused with the invalid-signature error before the segment loop: the
  install returns \<open>-1\<close> and no control transfer is issued, whatever the device.
\<close>
theorem bad_signature_rejected:
  assumes "length img \<le> max_size"
    and "length img < 4 \<or> img ! 0 \<noteq> 0x43 \<or> img ! 1 \<noteq> 0x59 \<or> img ! 3 \<noteq> 0xb0"
  shows "ezusb_install_firmware dev img = (Inl Invalid_signature, []) \<and>
         return_value (fst (ezusb_install_firmware dev img)) = - 1 \<and>
         spec_parse img = Inl InvalidSignature"
  using assms
  by (auto simp add: ezusb_install_firmware_def return_value_def spec_parse_def max_size_def)

text \<open>Witness for C3: a wrong marker byte, and an image of two bytes.\<close>
theorem bad_signature_rejected_witness:
  "length img_bad_marker \<le> max_size \<and> img_bad_marker ! 3 \<noteq> 0xb0 \<and>
   ezusb_install_firmware device_ok img_bad_marker = (Inl Invalid_signature, []) \<and>
   ezusb_install_firmware device_ok [0x43, 0x59] = (Inl Invalid_signature, [])"
proof -
  have a: "length img_bad_marker \<le> max_size" "img_bad_marker ! 3 \<noteq> 0xb0"
    by (simp_all add: img_bad_marker_def max_size_def)
  have b: "length [0x43, 0x59 :: byte] \<le> max_size" "length [0x43, 0x59 :: byte] < 4"
    by (simp_all add: max_size_def)
  show ?thesis
    using bad_signature_rejected [of img_bad_marker device_ok]
      bad_signature_rejected [of "[0x43, 0x59]" device_ok] a b
    by blast
qed

text \<open>
  Counterexample to C3 as stated: a file of \<open>0x86001\<close> zero bytes has a wrong byte 0,
  and the install fails on the size limit, which is tested first, not on the signature.
\<close>
theorem oversized_image_other_error:
  "img_oversized ! 0 \<noteq> 0x43 \<and>
   ezusb_install_firmware device_ok img_oversized = (Inl Size_exceeds_limit, []) \<and>
   fst (ezusb_install_firmware device_ok img_oversized) \<noteq> Inl Invalid_signature"
  by (simp add: img_oversized_def ezusb_install_firmware_def max_size_def)






text \<open>
  Claim C9. At a segment header the loop works with
  \<open>sublength = (encodedLength * 4) mod 2 ^ 32\<close>: the shift is done on a 32-bit
  \<^verbatim>\<open>unsigned\<close>. From \<open>encodedLength = 2 ^ 30\<close> on this is less than the product, at
  \<open>2 ^ 30\<close> it is 0, and \<open>img_wrapped_length\<close>, 12 bytes long with a header declaring
  \<open>2 ^ 32\<close> bytes, is accepted.
\<close>
theorem sublength_wraps_32_bit:
  assumes "off + 8 \<le> length fw" and "off + 4 \<noteq> length fw"
  shows
   "segment_loop dev fw off issued =
      (let sublength = (unat (RL32 fw off) * 4) mod 2 ^ 32
       in if length fw - (off + 8) < sublength then (Inr (off + 8), issued)
          else
            (case chunk_loop dev fw (off + 8) (unat (RL32 fw (off + 4))) sublength 0 issued of
               (Inl e, issued') \<Rightarrow> (Inl e, issued')
             | (Inr _, issued') \<Rightarrow> segment_loop dev fw (off + 8 + sublength) issued')) \<and>
    (2 ^ 30 \<le> unat (RL32 fw off) \<longrightarrow>
       (unat (RL32 fw off) * 4) mod 2 ^ 32 < unat (RL32 fw off) * 4) \<and>
    (unat (RL32 fw off) = 2 ^ 30 \<longrightarrow> (unat (RL32 fw off) * 4) mod 2 ^ 32 = 0) \<and>
    unat (RL32 img_wrapped_length 4) = 2 ^ 30 \<and>
    fst (ezusb_install_firmware device_ok img_wrapped_length) = Inr ()"
proof -
  have sl: "unat (push_bit 2 (RL32 fw off)) = (unat (RL32 fw off) * 4) mod 2 ^ 32"
    by (simp add: push_bit_eq_mult unat_word_ariths)
  have "segment_loop dev fw off issued =
      (let sublength = unat (push_bit 2 (RL32 fw off))
       in if length fw - (off + 8) < sublength then (Inr (off + 8), issued)
          else
            (case chunk_loop dev fw (off + 8) (unat (RL32 fw (off + 4))) sublength 0 issued of
               (Inl e, issued') \<Rightarrow> (Inl e, issued')
             | (Inr _, issued') \<Rightarrow> segment_loop dev fw (off + 8 + sublength) issued'))"
    using assms by (subst segment_loop.simps) (simp add: Let_def)
  then have a: "segment_loop dev fw off issued =
      (let sublength = (unat (RL32 fw off) * 4) mod 2 ^ 32
       in if length fw - (off + 8) < sublength then (Inr (off + 8), issued)
          else
            (case chunk_loop dev fw (off + 8) (unat (RL32 fw (off + 4))) sublength 0 issued of
               (Inl e, issued') \<Rightarrow> (Inl e, issued')
             | (Inr _, issued') \<Rightarrow> segment_loop dev fw (off + 8 + sublength) issued'))"
    unfolding sl .
  have b: "(n * 4) mod 2 ^ 32 < n * 4" if "2 ^ 30 \<le> n" for n :: nat
  proof -
    have "(n * 4) mod 2 ^ 32 < 2 ^ 32" by simp
    also have "(2::nat) ^ 32 \<le> n * 4" using that by simp
    finally show ?thesis .
  qed
  have c: "(n * 4) mod 2 ^ 32 = 0" if "n = 2 ^ 30" for n :: nat
    using that by simp
  have d: "unat (RL32 img_wrapped_length 4) = 2 ^ 30"
    by (simp add: img_wrapped_length_def RL32_def)
  have e: "fst (ezusb_install_firmware device_ok img_wrapped_length) = Inr ()"
    by (simp add: install_unfold img_wrapped_length_def device_ok_def)
  from a b c d e show ?thesis by blast
qed

text \<open>Witness for C9: the header of \<open>img_wrapped_length\<close> is parsed as a segment of 0 bytes.\<close>
theorem sublength_wraps_32_bit_witness:
  "4 + 8 \<le> length img_wrapped_length \<and> 4 + 4 \<noteq> length img_wrapped_length \<and>
   unat (RL32 img_wrapped_length 4) = 2 ^ 30 \<and>
   (unat (RL32 img_wrapped_length 4) * 4) mod 2 ^ 32 = 0 \<and>
   segment_loop device_ok img_wrapped_length 4 [] =
     (Inr 12, [\<lparr> bmRequestType = 0x40, bRequest = 0xa0, wValue = 0x100, wIndex = 0,
                  data = [], timeout = 100 \<rparr>]) \<and>
   ezusb_install_firmware device_ok img_wrapped_length =
     (Inr (), [\<lparr> bmRequestType = 0x40, bRequest = 0xa0, wValue = 0x100, wIndex = 0,
                 data = [], timeout = 100 \<rparr>])"
proof -
  have h: "4 + 8 \<le> length img_wrapped_length" "4 + 4 \<noteq> length img_wrapped_length"
    by (simp_all add: img_wrapped_length_def)
  have e: "unat (RL32 img_wrapped_length 4) = 2 ^ 30"
    by (simp add: img_wrapped_length_def RL32_def)
  have i: "ezusb_install_firmware device_ok img_wrapped_length =
     (Inr (), [\<lparr> bmRequestType = 0x40, bRequest = 0xa0, wValue = 0x100, wIndex = 0,
                 data = [], timeout = 100 \<rparr>])"
    by (simp add: install_unfold img_wrapped_length_def device_ok_def)
  have s: "segment_loop device_ok img_wrapped_length 4 [] =
     (Inr 12, [\<lparr> bmRequestType = 0x40, bRequest = 0xa0, wValue = 0x100, wIndex = 0,
                  data = [], timeout = 100 \<rparr>])"
    by (simp add: install_unfold img_wrapped_length_def device_ok_def)
  from sublength_wraps_32_bit [OF h, of device_ok "[]"] e
  have "(unat (RL32 img_wrapped_length 4) * 4) mod 2 ^ 32 = 0" by blast
  with h e i s show ?thesis by blast
qed

section \<open>Streaming: proofs\<close>

lemmas callback_unfold = transfer_callback_def Let_def libusb_submit_transfer_def


lemma callback_stop: "stop_transfers (transfer_callback c s) = stop_transfers s"
  by (simp add: callback_unfold)




lemma callback_in_flight:
  "in_flight (transfer_callback c s) =
     (if \<not> stop_transfers s \<and> resubmit c = 0 then insert (slot c) (in_flight s)
      else in_flight s)"
  by (simp add: callback_unfold)

lemma callback_success_count:
  "success_count (transfer_callback c s) =
     (if status c = LIBUSB_TRANSFER_COMPLETED then success_count s + 1 else success_count s)"
  by (simp add: callback_unfold)

lemma callback_failure_count:
  "failure_count (transfer_callback c s) =
     (if status c = LIBUSB_TRANSFER_COMPLETED then failure_count s else failure_count s + 1)"
  by (simp add: callback_unfold)

lemma callback_transfer_index:
  "transfer_index (transfer_callback c s) =
     (if transfer_index s + 1 = queuedepth s then 0 else transfer_index s + 1)"
  by (simp add: callback_unfold)

lemma callback_transfer_size:
  "transfer_size (transfer_callback c s) =
     (if transfer_index s + 1 = queuedepth s then 0 else transfer_size s + csize c)"
  by (simp add: callback_unfold csize_def)




lemma run_counts:
  "success_count (fold transfer_callback cs s) =
      success_count s + of_nat (length (filter completed cs)) \<and>
   failure_count (fold transfer_callback cs s) =
      failure_count s + of_nat (length (filter (\<lambda>c. \<not> completed c) cs))"
  by (induction cs arbitrary: s)
     (simp_all add: callback_success_count callback_failure_count completed_def)

lemma word_succ_unat:
  "unat (w :: 32 word) < 2 ^ 32 - 1 \<Longrightarrow> unat (w + 1) = unat w + 1"
  by (simp add: unat_word_ariths)

text \<open>
  Claim C10, as amended. One run of the callback adds 1, modulo \<open>2 ^ 32\<close>, to exactly one
  of \<^verbatim>\<open>success_count\<close> and \<^verbatim>\<open>failure_count\<close> and leaves the other as it is; neither
  decreases as long as it is below \<open>2 ^ 32 - 1\<close>. At a window boundary
  (\<^verbatim>\<open>transfer_index\<close> reaches \<^verbatim>\<open>queuedepth\<close>) \<^verbatim>\<open>transfer_index\<close> and \<^verbatim>\<open>transfer_size\<close> are
  set to 0, and the two counters still get their increment: over any sequence of
  completions they count, modulo \<open>2 ^ 32\<close>, the completed and the failed transfers.
\<close>
theorem callback_counters:
  "(completed c \<longrightarrow>
      success_count (transfer_callback c s) = success_count s + 1 \<and>
      failure_count (transfer_callback c s) = failure_count s) \<and>
   (\<not> completed c \<longrightarrow>
      failure_count (transfer_callback c s) = failure_count s + 1 \<and>
      success_count (transfer_callback c s) = success_count s) \<and>
   (unat (success_count s) < 2 ^ 32 - 1 \<longrightarrow>
      unat (success_count s) \<le> unat (success_count (transfer_callback c s))) \<and>
   (unat (failure_count s) < 2 ^ 32 - 1 \<longrightarrow>
      unat (failure_count s) \<le> unat (failure_count (transfer_callback c s))) \<and>
   (transfer_index s + 1 = queuedepth s \<longrightarrow>
      transfer_index (transfer_callback c s) = 0 \<and>
      transfer_size (transfer_callback c s) = 0) \<and>
   (transfer_index s + 1 \<noteq> queuedepth s \<longrightarrow>
      transfer_index (transfer_callback c s) = transfer_index s + 1 \<and>
      transfer_size (transfer_callback c s) = transfer_size s + csize c) \<and>
   success_count (fold transfer_callback cs s) =
      success_count s + of_nat (length (filter completed cs)) \<and>
   failure_count (fold transfer_callback cs s) =
      failure_count s + of_nat (length (filter (\<lambda>c. \<not> completed c) cs))"
proof -
  have a: "unat (success_count s) < 2 ^ 32 - 1 \<longrightarrow>
      unat (success_count s) \<le> unat (success_count (transfer_callback c s))"
    using word_succ_unat [of "success_count s"] by (simp add: callback_success_count)
  have b: "unat (failure_count s) < 2 ^ 32 - 1 \<longrightarrow>
      unat (failure_count s) \<le> unat (failure_count (transfer_callback c s))"
    using word_succ_unat [of "failure_count s"] by (simp add: callback_failure_count)
  show ?thesis
    using a b run_counts [of cs s]
    by (simp add: callback_success_count callback_failure_count callback_transfer_index
          callback_transfer_size completed_def)
qed

lemma deliver_ok_keeps:
  "0 \<in> in_flight s \<Longrightarrow> \<not> stop_transfers s \<Longrightarrow>
     0 \<in> in_flight (deliver completion_ok s) \<and> \<not> stop_transfers (deliver completion_ok s) \<and>
     success_count (deliver completion_ok s) = success_count s + 1"
  by (simp add: deliver_def completion_ok_def callback_in_flight callback_stop
        callback_success_count)

lemma deliver_ok_run:
  "0 \<in> in_flight s \<Longrightarrow> \<not> stop_transfers s \<Longrightarrow>
     success_count (fold deliver (replicate n completion_ok) s) = success_count s + of_nat n"
proof (induction n arbitrary: s)
  case 0
  then show ?case by simp
next
  case (Suc n)
  from deliver_ok_keeps [OF Suc.prems] Suc.IH [of "deliver completion_ok s"]
  show ?case by simp
qed

lemma session_running_eval:
  "0 \<in> in_flight session_running \<and> \<not> stop_transfers session_running \<and>
   success_count session_running = 0"
  by (simp add: session_running_def upt_rec submit_initial_def libusb_submit_transfer_def
        initial_session_def Let_def)

text \<open>
  Counterexample to C10 as stated: \<^verbatim>\<open>success_count\<close> is an \<^verbatim>\<open>unsigned int\<close>. After
  \<open>2 ^ 32 - 1\<close> successful completions it is \<open>0xFFFFFFFF\<close>, and the next one takes it
  to 0: the count decreases.
\<close>
theorem success_count_wraps:
  "success_count (fold deliver (replicate 4294967295 completion_ok) session_running) = 0xFFFFFFFF \<and>
   success_count (fold deliver (replicate 4294967296 completion_ok) session_running) = 0 \<and>
   success_count (fold deliver (replicate 4294967296 completion_ok) session_running)
     < success_count (fold deliver (replicate 4294967295 completion_ok) session_running)"
proof -
  have r: "success_count (fold deliver (replicate n completion_ok) session_running) = of_nat n"
    for n using deliver_ok_run [of session_running n] session_running_eval by simp
  show ?thesis unfolding r by simp
qed






lemma session_running_counts:
  "success_count session_running = 0 \<and> failure_count session_running = 0 \<and>
   transfer_index session_running = 0 \<and> transfer_size session_running = 0 \<and>
   queuedepth session_running = 16"
  by (simp add: session_running_def upt_rec submit_initial_def libusb_submit_transfer_def
        initial_session_def Let_def)

text \<open>Witness for C10: the first completion of a session with 16 transfers in flight.\<close>
theorem callback_counters_witness:
  "completed completion_ok \<and>
   unat (success_count session_running) < 2 ^ 32 - 1 \<and>
   unat (failure_count session_running) < 2 ^ 32 - 1 \<and>
   transfer_index session_running + 1 \<noteq> queuedepth session_running \<and>
   success_count (transfer_callback completion_ok session_running) = 1 \<and>
   failure_count (transfer_callback completion_ok session_running) = 0 \<and>
   transfer_index (transfer_callback completion_ok session_running) = 1 \<and>
   transfer_size (transfer_callback completion_ok session_running) = 131072"
proof -
  have c: "completed completion_ok" by (simp add: completed_def completion_ok_def)
  have z: "csize completion_ok = 131072" by (simp add: csize_def completion_ok_def)
  have h: "unat (success_count session_running) < 2 ^ 32 - 1"
    "unat (failure_count session_running) < 2 ^ 32 - 1"
    "transfer_index session_running + 1 \<noteq> queuedepth session_running"
    using session_running_counts by simp_all
  from callback_counters [of completion_ok session_running "[]"] c h z session_running_counts
  have "success_count (transfer_callback completion_ok session_running) = 1"
    "failure_count (transfer_callback completion_ok session_running) = 0"
    "transfer_index (transfer_callback completion_ok session_running) = 1"
    "transfer_size (transfer_callback completion_ok session_running) = 131072"
    by simp_all
  with c h show ?thesis by blast
qed













end
